theory Spec2Isabelle
  imports Main "HOL-Library.Word" "HOL-Library.Sublist"
begin

section \<open>JavaScript strings\<close>

text \<open>
  A JavaScript string is a sequence of UTF-16 code units; \<open>length\<close>, \<open>indexOf\<close>,
  \<open>substring\<close>, \<open>split\<close> and regular expressions without the \<open>u\<close> flag all count and
  compare code units. The literals of the plugin are written with \<open>js\<close>.
\<close>

type_synonym jschar = "16 word"
type_synonym jsstring = "jschar list"

definition js :: "string \<Rightarrow> jsstring" where
  "js s = map (\<lambda>c. of_nat (of_char c)) s"

definition NL :: jschar where
  "NL = 10"

text \<open>\<open>s.startsWith(p)\<close>\<close>

fun startsWith :: "jsstring \<Rightarrow> jsstring \<Rightarrow> bool" where
  "startsWith s [] = True"
| "startsWith [] (p # ps) = False"
| "startsWith (c # cs) (p # ps) = (c = p \<and> startsWith cs ps)"

text \<open>\<open>s.indexOf(p)\<close>: the first position where \<open>p\<close> occurs, \<open>None\<close> for JavaScript's \<open>-1\<close>.\<close>

fun indexOfFrom :: "nat \<Rightarrow> jsstring \<Rightarrow> jsstring \<Rightarrow> nat option" where
  "indexOfFrom i [] p = (if p = [] then Some i else None)"
| "indexOfFrom i (c # cs) p =
     (if startsWith (c # cs) p then Some i else indexOfFrom (Suc i) cs p)"

definition indexOf :: "jsstring \<Rightarrow> jsstring \<Rightarrow> nat option" where
  "indexOf s p = indexOfFrom 0 s p"

definition includes_str :: "jsstring \<Rightarrow> jsstring \<Rightarrow> bool" where
  "includes_str s p = (indexOf s p \<noteq> None)"

text \<open>
  \<open>s.substring(a, b)\<close> for non-negative arguments: both are clamped to the length and
  swapped when the first is the larger one.
\<close>

definition substring :: "jsstring \<Rightarrow> nat \<Rightarrow> nat \<Rightarrow> jsstring" where
  "substring s a b =
     (let a' = min a (length s); b' = min b (length s);
          lo = min a' b'; hi = max a' b'
      in take (hi - lo) (drop lo s))"

text \<open>
  \<open>s.split(sep)\<close> for a non-empty separator literal: the pieces between the
  non-overlapping occurrences of \<open>sep\<close>, found from the left. \<open>cur\<close> is the piece read
  so far. The result is never empty.
\<close>

function splitOn :: "jsstring \<Rightarrow> jsstring \<Rightarrow> jsstring \<Rightarrow> jsstring list" where
  "splitOn sep cur [] = [cur]"
| "splitOn sep cur (c # cs) =
     (if sep \<noteq> [] \<and> startsWith (c # cs) sep
      then cur # splitOn sep [] (drop (length sep) (c # cs))
      else splitOn sep (cur @ [c]) cs)"
  by pat_completeness auto
termination
  by (relation "measure (\<lambda>(sep, cur, s). length s)") auto

definition split_str :: "jsstring \<Rightarrow> jsstring \<Rightarrow> jsstring list" where
  "split_str s sep = splitOn sep [] s"

text \<open>
  \<open>s.trim()\<close> removes white space and line terminators from both ends: TAB, LF, VT, FF,
  CR, SP, NBSP, U+1680, U+2000..U+200A, U+2028, U+2029, U+202F, U+205F, U+3000, U+FEFF.
\<close>

definition isWhiteSpace :: "jschar \<Rightarrow> bool" where
  "isWhiteSpace c =
     (c = 0x09 \<or> c = 0x0A \<or> c = 0x0B \<or> c = 0x0C \<or> c = 0x0D \<or> c = 0x20 \<or> c = 0xA0
      \<or> c = 0x1680 \<or> (0x2000 \<le> c \<and> c \<le> 0x200A) \<or> c = 0x2028 \<or> c = 0x2029
      \<or> c = 0x202F \<or> c = 0x205F \<or> c = 0x3000 \<or> c = 0xFEFF)"

definition trim :: "jsstring \<Rightarrow> jsstring" where
  "trim s = rev (dropWhile isWhiteSpace (rev (dropWhile isWhiteSpace s)))"

text \<open>The decimal digits of a number, as a template literal prints it.\<close>

fun showNat :: "nat \<Rightarrow> jsstring" where
  "showNat n =
     (if n < 10 then [of_nat (48 + n)]
      else showNat (n div 10) @ [of_nat (48 + n mod 10)])"

declare showNat.simps [simp del]

text \<open>
  A value that may be \<open>undefined\<close> is an option. \<open>truthy\<close> is JavaScript's test of such a
  string in a condition (\<open>undefined\<close> and the empty string are falsy); \<open>interp\<close> is what a
  template literal prints for it.
\<close>

definition truthy :: "jsstring option \<Rightarrow> bool" where
  "truthy v = (case v of None \<Rightarrow> False | Some s \<Rightarrow> s \<noteq> [])"

definition interp :: "jsstring option \<Rightarrow> jsstring" where
  "interp v = (case v of None \<Rightarrow> js ''undefined'' | Some s \<Rightarrow> s)"

text \<open>\<open>a || b\<close> on possibly undefined strings.\<close>

definition orElse :: "jsstring option \<Rightarrow> jsstring option \<Rightarrow> jsstring option" where
  "orElse a b = (if truthy a then a else b)"

text \<open>\<open>xs[i]\<close> on an array: \<open>undefined\<close> out of range.\<close>

definition at_index :: "'a list \<Rightarrow> nat \<Rightarrow> 'a option" where
  "at_index xs i = (if i < length xs then Some (xs ! i) else None)"

section \<open>parseChronosResults\<close>

definition startMarker :: jsstring where
  "startMarker = js ''DISCORD_RESULTS_START''"

definition endMarker :: jsstring where
  "endMarker = js ''DISCORD_RESULTS_END''"

definition fieldSep :: jsstring where
  "fieldSep = js '':::''"

text \<open>
  \<open>stdout.substring(startIndex + startMarker.length, endIndex)\<close>, or \<open>None\<close> when a marker
  is absent.
\<close>

definition resultsBlock :: "jsstring \<Rightarrow> jsstring option" where
  "resultsBlock stdout =
     (case indexOf stdout startMarker of
        None \<Rightarrow> None
      | Some startIndex \<Rightarrow>
          (case indexOf stdout endMarker of
             None \<Rightarrow> None
           | Some endIndex \<Rightarrow>
               Some (substring stdout (startIndex + length startMarker) endIndex)))"

text \<open>The filter on the lines of the block.\<close>

definition keepLine :: "jsstring \<Rightarrow> bool" where
  "keepLine line = (trim line \<noteq> [] \<and> line \<noteq> js ''---'' \<and> \<not> startsWith line (js ''=''))"

definition blockLines :: "jsstring \<Rightarrow> jsstring list" where
  "blockLines block = filter keepLine (split_str block [NL])"

text \<open>\<open>line.split(':::')[1]?.trim()\<close>\<close>

definition fieldOf :: "jsstring \<Rightarrow> jsstring option" where
  "fieldOf line = map_option trim (at_index (split_str line fieldSep) 1)"

text \<open>One pass of the loop body over a line, on the pair (questions, answers).\<close>

definition parseLine :: "jsstring list \<times> jsstring list \<Rightarrow> jsstring \<Rightarrow> jsstring list \<times> jsstring list" where
  "parseLine qa line =
     (if includes_str line (js ''QUESTION_'') \<and> includes_str line fieldSep then
        (case fieldOf line of
           None \<Rightarrow> qa
         | Some question \<Rightarrow> if question \<noteq> [] then (fst qa @ [question], snd qa) else qa)
      else if includes_str line (js ''ANSWER_'') \<and> includes_str line fieldSep then
        (case fieldOf line of
           None \<Rightarrow> qa
         | Some answer \<Rightarrow> if answer \<noteq> [] then (fst qa, snd qa @ [answer]) else qa)
      else qa)"

definition parseChronosResults :: "jsstring \<Rightarrow> (jsstring list \<times> jsstring list) option" where
  "parseChronosResults stdout =
     (case resultsBlock stdout of
        None \<Rightarrow> None
      | Some block \<Rightarrow> Some (foldl parseLine ([], []) (blockLines block)))"

section \<open>splitDiscordMessage\<close>

text \<open>
  The sentence pattern \<open>/[^.!?]+[.!?]+/g\<close>: a longest run of characters other than
  \<open>.\<close>, \<open>!\<close>, \<open>?\<close> followed by a longest run of these. \<open>matchSentences\<close> lists the
  matches from the left. A position that starts with a punctuation mark matches
  nothing and is stepped over; a run with no punctuation mark after it reaches the end
  of the string and matches nothing either.
\<close>

definition isTerminator :: "jschar \<Rightarrow> bool" where
  "isTerminator c = (c = 0x2E \<or> c = 0x21 \<or> c = 0x3F)"

function matchSentences :: "jsstring \<Rightarrow> jsstring list" where
  "matchSentences [] = []"
| "matchSentences (c # cs) =
     (let body = takeWhile (\<lambda>x. \<not> isTerminator x) (c # cs);
          rest = dropWhile (\<lambda>x. \<not> isTerminator x) (c # cs)
      in if body = [] then matchSentences cs
         else if rest = [] then []
         else (body @ takeWhile isTerminator rest) # matchSentences (dropWhile isTerminator rest))"
  by pat_completeness auto
termination
proof (relation "measure length")
  fix c :: jschar and cs body rest
  assume b: "body = takeWhile (\<lambda>x. \<not> isTerminator x) (c # cs)"
    and r: "rest = dropWhile (\<lambda>x. \<not> isTerminator x) (c # cs)"
    and nb: "body \<noteq> []"
  have "length (dropWhile isTerminator rest) \<le> length rest"
    by (rule length_dropWhile_le)
  moreover have "length body + length rest = length (c # cs)"
    unfolding b r by (metis length_append takeWhile_dropWhile_id)
  moreover have "Suc 0 \<le> length body" using nb by (cases body) simp_all
  ultimately show "(dropWhile isTerminator rest, c # cs) \<in> measure length"
    by (simp del: length_0_conv length_greater_0_conv)
qed simp_all

text \<open>\<open>line.match(/[^.!?]+[.!?]+/g) || [line]\<close>\<close>

definition sentencesOf :: "jsstring \<Rightarrow> jsstring list" where
  "sentencesOf line = (if matchSentences line = [] then [line] else matchSentences line)"

text \<open>The state of both loops is the pair (chunks, currentChunk).\<close>

definition sentenceStep :: "nat \<Rightarrow> jsstring list \<times> jsstring \<Rightarrow> jsstring \<Rightarrow> jsstring list \<times> jsstring" where
  "sentenceStep maxLength st sentence =
     (if length (snd st @ sentence) > maxLength then
        ((if snd st \<noteq> [] then fst st @ [trim (snd st)] else fst st), sentence)
      else (fst st, snd st @ sentence))"

definition flush :: "jsstring list \<times> jsstring \<Rightarrow> jsstring list \<times> jsstring" where
  "flush st = (if snd st \<noteq> [] then (fst st @ [trim (snd st)], []) else st)"

definition lineStep :: "nat \<Rightarrow> jsstring list \<times> jsstring \<Rightarrow> jsstring \<Rightarrow> jsstring list \<times> jsstring" where
  "lineStep maxLength st line =
     (if length (snd st @ line @ [NL]) > maxLength then
        (if length line > maxLength
         then foldl (sentenceStep maxLength) (flush st) (sentencesOf line)
         else (fst (flush st), line @ [NL]))
      else (fst st, snd st @ line @ [NL]))"

definition splitDiscordMessage :: "jsstring \<Rightarrow> nat \<Rightarrow> jsstring list" where
  "splitDiscordMessage text maxLength =
     (if length text \<le> maxLength then [text]
      else fst (flush (foldl (lineStep maxLength) ([], []) (split_str text [NL]))))"


section \<open>Attachments\<close>

text \<open>
  An attachment as the messaging framework hands it over. Every field may be missing
  (\<open>undefined\<close>); a field that is present is a string.
\<close>

record attachment =
  att_id :: "jsstring option"
  att_title :: "jsstring option"
  att_name :: "jsstring option"
  att_source :: "jsstring option"
  att_contentType :: "jsstring option"
  att_url :: "jsstring option"

text \<open>
  The pattern \<open>/\.(jpg|jpeg|png|gif|webp|bmp)$/i\<close>. Without the \<open>u\<close> flag a code unit
  matches a letter of the pattern when both have the same canonical form, their upper
  case; a code unit outside ASCII never canonicalises to an ASCII letter, so for the
  comparison with the letters of the pattern it is enough to fold \<open>a\<close>..\<open>z\<close>.
\<close>

definition imageExtensions :: "jsstring list" where
  "imageExtensions = [js ''jpg'', js ''jpeg'', js ''png'', js ''gif'', js ''webp'', js ''bmp'']"

definition canonicalize :: "jschar \<Rightarrow> jschar" where
  "canonicalize c = (if 0x61 \<le> c \<and> c \<le> 0x7A then c - 0x20 else c)"

definition eqIgnoreCase :: "jsstring \<Rightarrow> jsstring \<Rightarrow> bool" where
  "eqIgnoreCase s p = (map canonicalize s = map canonicalize p)"

text \<open>
  \<open>s.match(/\.(jpg|jpeg|png|gif|webp|bmp)$/i)\<close> as a condition: some position holds a
  dot and what follows it, up to the end of the string, is one of the extensions.
\<close>

fun matchImageExt :: "jsstring \<Rightarrow> bool" where
  "matchImageExt [] = False"
| "matchImageExt (c # cs) =
     ((c = 0x2E \<and> list_ex (eqIgnoreCase cs) imageExtensions) \<or> matchImageExt cs)"

text \<open>
  The predicate of \<open>validate\<close>, of the action handler and of the event handler:
  \<open>attachment.source === 'Image' || attachment.contentType?.startsWith('image/') ||
   attachment.url?.match(...)\<close>
\<close>

definition isImage :: "attachment \<Rightarrow> bool" where
  "isImage a =
     (att_source a = Some (js ''Image'')
      \<or> (case att_contentType a of None \<Rightarrow> False | Some ct \<Rightarrow> startsWith ct (js ''image/''))
      \<or> (case att_url a of None \<Rightarrow> False | Some u \<Rightarrow> matchImageExt u))"

text \<open>\<open>validate\<close> of the download action.\<close>

definition validate :: "attachment list option \<Rightarrow> bool" where
  "validate attachments =
     (case attachments of
        None \<Rightarrow> False
      | Some atts \<Rightarrow> if atts = [] then False else list_ex isImage atts)"

section \<open>The local file name\<close>

text \<open>The pattern \<open>/[^a-zA-Z0-9._-]/g\<close> and \<open>fileName.replace(..., '_')\<close>.\<close>

definition isSafeChar :: "jschar \<Rightarrow> bool" where
  "isSafeChar c =
     ((0x61 \<le> c \<and> c \<le> 0x7A) \<or> (0x41 \<le> c \<and> c \<le> 0x5A) \<or> (0x30 \<le> c \<and> c \<le> 0x39)
      \<or> c = 0x2E \<or> c = 0x5F \<or> c = 0x2D)"

definition sanitize :: "jsstring \<Rightarrow> jsstring" where
  "sanitize fileName = map (\<lambda>c. if isSafeChar c then c else 0x5F) fileName"

text \<open>\<open>attachment.contentType?.split('/')[1] || 'png'\<close>\<close>

definition extensionFor :: "attachment \<Rightarrow> jsstring" where
  "extensionFor a =
     (case att_contentType a of
        None \<Rightarrow> js ''png''
      | Some ct \<Rightarrow>
          (case at_index (split_str ct (js ''/'')) 1 of
             None \<Rightarrow> js ''png''
           | Some ext \<Rightarrow> if ext \<noteq> [] then ext else js ''png''))"

text \<open>
  The name before the extension check: \<open>attachment.title || attachment.name\<close>, else the
  last segment of the URL's path, else \<open>image_<id>\<close>. \<open>new URL(imageUrl).pathname\<close>
  belongs to the platform and is the parameter \<open>pathname\<close>; \<open>None\<close> is its TypeError on
  a string that is no URL, and the result \<open>None\<close> of \<open>baseName\<close> is that exception.
\<close>

definition baseName :: "(jsstring \<Rightarrow> jsstring option) \<Rightarrow> attachment \<Rightarrow> jsstring \<Rightarrow> jsstring option" where
  "baseName pathname a imageUrl =
     (if truthy (orElse (att_title a) (att_name a)) then orElse (att_title a) (att_name a)
      else (case pathname imageUrl of
              None \<Rightarrow> None
            | Some urlPath \<Rightarrow>
                (let seg = last (split_str urlPath (js ''/''))
                 in Some (if seg \<noteq> [] then seg else js ''image_'' @ interp (att_id a)))))"

definition deriveFileName :: "(jsstring \<Rightarrow> jsstring option) \<Rightarrow> attachment \<Rightarrow> jsstring \<Rightarrow> jsstring option" where
  "deriveFileName pathname a imageUrl =
     (case baseName pathname a imageUrl of
        None \<Rightarrow> None
      | Some fileName \<Rightarrow>
          Some (sanitize (if \<not> matchImageExt fileName
                          then fileName @ js ''.'' @ extensionFor a
                          else fileName)))"

section \<open>Effects\<close>

text \<open>
  What the plugin does to the world is a list of events, in order. A callback call
  carries its text and whether the callback returned (\<open>True\<close>) or threw; every call
  passes \<open>source: message.content.source\<close>, which the events leave out. \<open>SendNotice\<close> is
  a call with one of the two failure notices, \<open>SendChunk\<close> a call with a chunk of the
  report. A logger call with an object argument is recorded by its message.
\<close>

datatype level = LInfo | LWarn | LError

datatype event =
    Log level jsstring
  | Mkdir jsstring
  | Fetch jsstring
  | WriteFile jsstring
  | Spawn jsstring "jsstring list" jsstring "(jsstring \<times> jsstring) list"
  | SendChunk jsstring bool
  | SendNotice jsstring bool
  | Unlink jsstring bool

text \<open>
  The host process: working directory, environment (\<open>process.env\<close>, name and value
  pairs), and the two platform functions \<open>path.join\<close> and \<open>new URL(...).pathname\<close>.
\<close>

record host =
  cwd :: jsstring
  env :: "(jsstring \<times> jsstring) list"
  joinPath :: "jsstring list \<Rightarrow> jsstring"
  urlPathname :: "jsstring \<Rightarrow> jsstring option"

text \<open>
  One run of the child process. Either it could not be started: the \<open>error\<close> event
  settles the promise, and the \<open>close\<close> event that follows it carries the code of the
  failed spawn (a negative error number) and still runs its listener, whose log lines
  are recorded right after the line of the \<open>error\<close> listener. Or it wrote its output in
  pieces and closed with an exit code (\<open>None\<close> is the \<open>null\<close> code of a child ended by a
  signal). Every child is taken to end.
\<close>

datatype piece = Stdout jsstring | Stderr jsstring

datatype child_run = LaunchError "int option" | Closed "piece list" "int option"

datatype fetch_result = FetchRejected | ResponseNotOk | BodyFailed | Fetched

text \<open>
  What the world answers during the processing of one attachment. \<open>cb_ok k\<close> tells
  whether the callback call number \<open>k\<close> of this iteration (from 0) returns.
\<close>

record run_world =
  dir_exists :: bool
  mkdir_ok :: bool
  fetched :: fetch_result
  write_ok :: bool
  child :: child_run
  cb_ok :: "nat \<Rightarrow> bool"
  unlink_ok :: bool

record message =
  msg_entityId :: "jsstring option"
  msg_attachments :: "attachment list option"

section \<open>runChronosPipeline\<close>

definition pythonCmd :: jsstring where
  "pythonCmd = js ''/home/sidharth/miniconda3/envs/heritage/bin/python''"

text \<open>\<open>env.KEY?.substring(0, 20)\<close> inside a template literal.\<close>

definition envPrefix :: "(jsstring \<times> jsstring) list \<Rightarrow> jsstring \<Rightarrow> jsstring" where
  "envPrefix e key = interp (map_option (\<lambda>v. substring v 0 20) (map_of e key))"

definition stdoutOf :: "piece list \<Rightarrow> jsstring" where
  "stdoutOf ps = concat (map (\<lambda>p. case p of Stdout s \<Rightarrow> s | Stderr s \<Rightarrow> []) ps)"

definition stderrOf :: "piece list \<Rightarrow> jsstring" where
  "stderrOf ps = concat (map (\<lambda>p. case p of Stdout s \<Rightarrow> [] | Stderr s \<Rightarrow> s) ps)"

definition pieceLog :: "piece \<Rightarrow> event" where
  "pieceLog p =
     (case p of
        Stdout s \<Rightarrow> Log LInfo (js ''[Chronos] '' @ trim s)
      | Stderr s \<Rightarrow> Log LWarn (js ''[Chronos Error] '' @ trim s))"

definition showInt :: "int \<Rightarrow> jsstring" where
  "showInt n = (if n < 0 then js ''-'' @ showNat (nat (- n)) else showNat (nat n))"

definition showCode :: "int option \<Rightarrow> jsstring" where
  "showCode code = (case code of None \<Rightarrow> js ''null'' | Some n \<Rightarrow> showInt n)"

text \<open>The log lines of \<open>parseChronosResults\<close>.\<close>

definition parseLog :: "jsstring \<Rightarrow> event list" where
  "parseLog stdout =
     (case parseChronosResults stdout of
        None \<Rightarrow> [Log LError (js ''No DISCORD_RESULTS block found in output'')]
      | Some qa \<Rightarrow>
          [Log LInfo (js ''Parsed '' @ showNat (length (fst qa)) @ js '' questions and ''
                      @ showNat (length (snd qa)) @ js '' answers'')])"

text \<open>
  The first log lines of the invoker and the call of \<open>spawn\<close>, with a copy of the
  environment.
\<close>

definition startEvents :: "host \<Rightarrow> jsstring \<Rightarrow> jsstring \<Rightarrow> event list" where
  "startEvents h imagePath userId =
     (let chronosScript = joinPath h [cwd h, js ''chronos'', js ''discord_main.py''];
          args = [chronosScript, imagePath, userId]
      in [Log LInfo (js ''Running Chronos pipeline: '' @ pythonCmd @ js '' '' @ chronosScript
                     @ js '' '' @ imagePath @ js '' '' @ userId),
          Log LInfo (js ''ENV check - OPENAI_API_KEY: ''
                     @ envPrefix (env h) (js ''OPENAI_API_KEY'') @ js ''...''),
          Log LInfo (js ''ENV check - GOOGLE_API_KEY: ''
                     @ envPrefix (env h) (js ''GOOGLE_API_KEY'') @ js ''...''),
          Spawn pythonCmd args (cwd h) (env h)])"

text \<open>The listener of \<open>close\<close>, on the output collected so far.\<close>

definition closeEvents :: "piece list \<Rightarrow> int option \<Rightarrow> event list" where
  "closeEvents pieces code =
     Log LInfo (js ''Chronos pipeline exited with code '' @ showCode code)
     # (if code \<noteq> Some 0 then
          [Log LError (js ''Chronos pipeline failed with exit code '' @ showCode code),
           Log LError (js ''stderr: '' @ stderrOf pieces)]
        else parseLog (stdoutOf pieces))"

text \<open>What the listeners of the child write, from its start to its \<open>close\<close> event.\<close>

definition childEvents :: "child_run \<Rightarrow> event list" where
  "childEvents run =
     (case run of
        LaunchError code \<Rightarrow>
          Log LError (js ''Failed to spawn Chronos process - check if heritage conda environment exists'')
          # closeEvents [] code
      | Closed pieces code \<Rightarrow> map pieceLog pieces @ closeEvents pieces code)"

text \<open>
  The value the promise resolves to: the first \<open>resolve\<close> counts, which after a failed
  spawn is the \<open>null\<close> of the \<open>error\<close> listener.
\<close>

definition runChronosPipeline ::
  "host \<Rightarrow> jsstring \<Rightarrow> jsstring \<Rightarrow> child_run \<Rightarrow> event list \<times> (jsstring list \<times> jsstring list) option" where
  "runChronosPipeline h imagePath userId run =
     (startEvents h imagePath userId @ childEvents run,
      (case run of
         LaunchError code \<Rightarrow> None
       | Closed pieces code \<Rightarrow>
           if code \<noteq> Some 0 then None else parseChronosResults (stdoutOf pieces)))"

section \<open>The MESSAGE_RECEIVED handler\<close>

text \<open>
  The texts of the two notices and of the report header start with the code units that
  the string literals of the source file hold.
\<close>

definition failedNotice :: jsstring where
  "failedNotice = [0x201A, 0xF6, 0x2020, 0xD4, 0x220F, 0xE8] @ js '' Failed to process image. Please check the logs for details.''"

definition errorNotice :: jsstring where
  "errorNotice = [0x201A, 0xF9, 0xE5] @ js '' An error occurred while processing the image.''"

definition reportHeader :: jsstring where
  "reportHeader = [0xF8FF, 0xFC, 0xEE, 0xA8] @ js '' **Chronos Analysis Results**'' @ [NL, NL]"

text \<open>One pass of the formatting loop: the entry of position \<open>i\<close>.\<close>

definition reportEntry :: "jsstring list \<Rightarrow> jsstring list \<Rightarrow> nat \<Rightarrow> jsstring" where
  "reportEntry questions answers i =
     js ''**Q'' @ showNat (i + 1) @ js '':** '' @ interp (at_index questions i) @ [NL, NL]
     @ js ''**A'' @ showNat (i + 1) @ js '':** '' @ interp (at_index answers i) @ [NL, NL]
     @ js ''---'' @ [NL, NL]"

definition formatReport :: "jsstring list \<Rightarrow> jsstring list \<Rightarrow> jsstring" where
  "formatReport questions answers =
     foldl (\<lambda>responseText i. responseText @ reportEntry questions answers i)
       reportHeader [0 ..< length questions]"

text \<open>How a step of the loop body ends: it goes on, it \<open>continue\<close>s, or it throws.\<close>

datatype 'a flow = Next 'a | Continue | Raise

text \<open>
  Sending the chunks in order, from callback call \<open>k\<close> on; the first call that throws
  ends the loop. The flag tells whether every call returned.
\<close>

fun sendAll :: "(nat \<Rightarrow> bool) \<Rightarrow> nat \<Rightarrow> jsstring list \<Rightarrow> event list \<times> bool" where
  "sendAll ok k [] = ([], True)"
| "sendAll ok k (chunk # chunks) =
     (if ok k
      then (SendChunk chunk True # fst (sendAll ok (Suc k) chunks), snd (sendAll ok (Suc k) chunks))
      else ([SendChunk chunk False], False))"

text \<open>Step 1 of the loop body: the image is downloaded to \<open>temp_images/\<close>.\<close>

definition acquire :: "host \<Rightarrow> run_world \<Rightarrow> attachment \<Rightarrow> event list \<times> jsstring flow" where
  "acquire h w a =
     (let tempDir = joinPath h [cwd h, js ''temp_images''];
          made = (if dir_exists w then [] else [Mkdir tempDir])
      in if \<not> dir_exists w \<and> \<not> mkdir_ok w then (made, Raise)
         else if \<not> truthy (att_url a) then
           (made @ [Log LWarn (js ''Attachment missing URL, skipping'')], Continue)
         else
           (case deriveFileName (urlPathname h) a (interp (att_url a)) of
              None \<Rightarrow> (made, Raise)
            | Some fileName \<Rightarrow>
                (let imagePath = joinPath h [tempDir, fileName];
                     asked = made @ [Log LInfo (js ''Downloading image to: '' @ imagePath),
                                     Fetch (interp (att_url a))]
                 in if fetched w \<noteq> Fetched then (asked, Raise)
                    else if \<not> write_ok w then (asked, Raise)
                    else (asked @ [WriteFile imagePath, Log LInfo (js ''Image saved successfully'')],
                          Next imagePath))))"

text \<open>The branch \<open>!results || results.questions.length === 0\<close>.\<close>

definition noResults :: "run_world \<Rightarrow> bool \<Rightarrow> event list \<times> unit flow" where
  "noResults w hasCallback =
     (if hasCallback then
        (if cb_ok w 0
         then ([Log LError (js ''Chronos pipeline returned no results''), SendNotice failedNotice True],
               Continue)
         else ([Log LError (js ''Chronos pipeline returned no results''), SendNotice failedNotice False],
               Raise))
      else ([Log LError (js ''Chronos pipeline returned no results'')], Continue))"

text \<open>The cleanup at the end of the loop body, with its own \<open>try\<close>/\<open>catch\<close>.\<close>

definition cleanup :: "run_world \<Rightarrow> jsstring \<Rightarrow> event list" where
  "cleanup w imagePath =
     (if unlink_ok w
      then [Unlink imagePath True, Log LInfo (js ''Deleted temp image: '' @ imagePath)]
      else [Unlink imagePath False, Log LWarn (js ''Failed to delete temp image'')])"

text \<open>Steps 4 and 5 of the loop body, from the result of the pipeline on.\<close>

definition deliver ::
  "run_world \<Rightarrow> bool \<Rightarrow> jsstring \<Rightarrow> (jsstring list \<times> jsstring list) option \<Rightarrow> event list \<times> unit flow" where
  "deliver w hasCallback imagePath results =
     (case results of
        None \<Rightarrow> noResults w hasCallback
      | Some qa \<Rightarrow>
          if fst qa = [] then noResults w hasCallback
          else
            (let responseText = formatReport (fst qa) (snd qa);
                 messageChunks = splitDiscordMessage responseText 1900;
                 logs = [Log LInfo (js ''Formatting '' @ showNat (length (fst qa)) @ js '' results for Discord''),
                         Log LInfo (js ''Sending '' @ showNat (length messageChunks)
                                    @ js '' message chunk(s) to Discord'')];
                 sent = (if hasCallback then sendAll (cb_ok w) 0 messageChunks else ([], True))
             in if \<not> snd sent then (logs @ fst sent, Raise)
                else (logs @ fst sent @ cleanup w imagePath, Next ())))"

text \<open>The body of the \<open>try\<close> block.\<close>

definition tryBody :: "host \<Rightarrow> run_world \<Rightarrow> message \<Rightarrow> bool \<Rightarrow> attachment \<Rightarrow> event list \<times> unit flow" where
  "tryBody h w msg hasCallback a =
     (case acquire h w a of
        (evs, Raise) \<Rightarrow> (evs, Raise)
      | (evs, Continue) \<Rightarrow> (evs, Continue)
      | (evs, Next imagePath) \<Rightarrow>
          (let userId = (if truthy (msg_entityId msg) then interp (msg_entityId msg)
                         else js ''discord_user'');
               piped = runChronosPipeline h imagePath userId (child w);
               done = deliver w hasCallback imagePath (snd piped)
           in (evs @ [Log LInfo (js ''Starting Chronos pipeline processing...'')] @ fst piped @ fst done,
               snd done)))"

definition isCallbackEvent :: "event \<Rightarrow> bool" where
  "isCallbackEvent e = (case e of SendChunk t r \<Rightarrow> True | SendNotice t r \<Rightarrow> True | _ \<Rightarrow> False)"

text \<open>
  One iteration of the loop over the image attachments: the \<open>try\<close> block and its
  \<open>catch\<close>. The flag is \<open>False\<close> when an exception leaves the iteration, which is when
  the callback call of the \<open>catch\<close> block throws.
\<close>

definition processAttachment ::
  "host \<Rightarrow> run_world \<Rightarrow> message \<Rightarrow> bool \<Rightarrow> attachment \<Rightarrow> event list \<times> bool" where
  "processAttachment h w msg hasCallback a =
     (let body = tryBody h w msg hasCallback a
      in if snd body = Raise then
           (let caught = fst body @ [Log LError (js ''Error processing image through Chronos'')]
            in if hasCallback then
                 (if cb_ok w (length (filter isCallbackEvent (fst body)))
                  then (caught @ [SendNotice errorNotice True], True)
                  else (caught @ [SendNotice errorNotice False], False))
               else (caught, True))
         else (fst body, True))"

text \<open>
  The loop: iteration \<open>i\<close> meets the world \<open>ws i\<close>. An exception that leaves an
  iteration leaves the loop.
\<close>

fun processAll ::
  "host \<Rightarrow> (nat \<Rightarrow> run_world) \<Rightarrow> message \<Rightarrow> bool \<Rightarrow> nat \<Rightarrow> attachment list \<Rightarrow> event list \<times> bool" where
  "processAll h ws msg hasCallback i [] = ([], True)"
| "processAll h ws msg hasCallback i (a # as) =
     (let this = processAttachment h (ws i) msg hasCallback a
      in if snd this
         then (fst this @ fst (processAll h ws msg hasCallback (Suc i) as),
               snd (processAll h ws msg hasCallback (Suc i) as))
         else this)"

definition messageReceived ::
  "host \<Rightarrow> (nat \<Rightarrow> run_world) \<Rightarrow> message \<Rightarrow> bool \<Rightarrow> event list \<times> bool" where
  "messageReceived h ws msg hasCallback =
     (let entered = [Log LInfo (js ''MESSAGE_RECEIVED event received''),
                     Log LInfo (js ''MESSAGE_RECEIVED param keys'')]
      in case msg_attachments msg of
           None \<Rightarrow> (entered, True)
         | Some atts \<Rightarrow>
             if atts = [] then (entered, True)
             else
               (let imageAttachments = filter isImage atts;
                    found = entered @ [Log LInfo (js ''MESSAGE_RECEIVED: Found attachments, checking for images'')]
                in if imageAttachments = [] then (found, True)
                   else
                     (let looped = processAll h ws msg hasCallback 0 imageAttachments
                      in (found @ [Log LInfo (js ''MESSAGE_RECEIVED: '' @ showNat (length imageAttachments)
                                              @ js '' image(s) detected'')] @ fst looped,
                          snd looped))))"

section \<open>Notions of the specification\<close>

subsection \<open>Extraction\<close>

text \<open>
  The text between the first occurrence of the separator in a line and the next
  occurrence after it (the end of the line when there is none).
\<close>

definition betweenSeps :: "jsstring \<Rightarrow> jsstring" where
  "betweenSeps line =
     (case indexOf line fieldSep of
        None \<Rightarrow> []
      | Some i \<Rightarrow>
          (let rest = drop (i + length fieldSep) line
           in case indexOf rest fieldSep of None \<Rightarrow> rest | Some j \<Rightarrow> take j rest))"

definition fieldText :: "jsstring \<Rightarrow> jsstring" where
  "fieldText line = trim (betweenSeps line)"

text \<open>
  A question line carries the question tag and the separator; an answer line carries
  the answer tag and the separator and is not a question line.
\<close>

definition questionLine :: "jsstring \<Rightarrow> bool" where
  "questionLine line = (includes_str line (js ''QUESTION_'') \<and> includes_str line fieldSep)"

definition answerLine :: "jsstring \<Rightarrow> bool" where
  "answerLine line =
     (\<not> questionLine line \<and> includes_str line (js ''ANSWER_'') \<and> includes_str line fieldSep)"

subsection \<open>Chunking\<close>

text \<open>
  The one way a chunk may exceed the limit: it is a sentence (or a line without
  sentences) of a line longer than the limit, itself longer than the limit, trimmed.
\<close>

definition oversizedSentence :: "jsstring list \<Rightarrow> nat \<Rightarrow> jsstring \<Rightarrow> bool" where
  "oversizedSentence ls L c =
     (\<exists>line \<in> set ls. L < length line
        \<and> (\<exists>s \<in> set (sentencesOf line). L < length s \<and> c = trim s))"

definition chunkOk :: "jsstring list \<Rightarrow> nat \<Rightarrow> jsstring \<Rightarrow> bool" where
  "chunkOk ls L c = (length c \<le> L \<or> oversizedSentence ls L c)"

text \<open>The invariant of both loops of the chunker.\<close>

definition chunkInv :: "jsstring list \<Rightarrow> nat \<Rightarrow> jsstring list \<times> jsstring \<Rightarrow> bool" where
  "chunkInv ls L st = ((\<forall>c \<in> set (fst st). chunkOk ls L c) \<and> chunkOk ls L (trim (snd st)))"

subsection \<open>Classification\<close>

definition toLowerAscii :: "jschar \<Rightarrow> jschar" where
  "toLowerAscii c = (if 0x41 \<le> c \<and> c \<le> 0x5A then c + 0x20 else c)"

definition isLowerLetter :: "jschar \<Rightarrow> bool" where
  "isLowerLetter c = (0x61 \<le> c \<and> c \<le> 0x7A)"

text \<open>The URL, in lower case, ends with a dot and one of the extensions.\<close>

definition endsWithImageExtension :: "jsstring \<Rightarrow> bool" where
  "endsWithImageExtension u =
     list_ex (\<lambda>e. suffix (0x2E # e) (map toLowerAscii u)) imageExtensions"

text \<open>The classifier as the specification words it.\<close>

definition imageLike :: "attachment \<Rightarrow> bool" where
  "imageLike a =
     (att_source a = Some (js ''Image'')
      \<or> (case att_contentType a of None \<Rightarrow> False | Some ct \<Rightarrow> prefix (js ''image/'') ct)
      \<or> (case att_url a of None \<Rightarrow> False | Some u \<Rightarrow> endsWithImageExtension u))"

subsection \<open>Invocation\<close>

definition logEvents :: "event list \<Rightarrow> event list" where
  "logEvents evs = filter (\<lambda>e. case e of Log l t \<Rightarrow> True | _ \<Rightarrow> False) evs"

text \<open>The environments handed to \<open>spawn\<close>, in order.\<close>

definition spawnedEnvs :: "event list \<Rightarrow> (jsstring \<times> jsstring) list list" where
  "spawnedEnvs evs = concat (map (\<lambda>e. case e of Spawn c a d e \<Rightarrow> [e] | _ \<Rightarrow> []) evs)"


subsection \<open>Orchestration\<close>

text \<open>The failure notices that reached the user.\<close>

definition deliveredNotices :: "event list \<Rightarrow> nat" where
  "deliveredNotices evs =
     length (filter (\<lambda>e. case e of SendNotice t r \<Rightarrow> r | _ \<Rightarrow> False) evs)"

definition unlinkEvents :: "event list \<Rightarrow> event list" where
  "unlinkEvents evs = filter (\<lambda>e. case e of Unlink p r \<Rightarrow> True | _ \<Rightarrow> False) evs"

definition spawnCount :: "event list \<Rightarrow> nat" where
  "spawnCount evs = length (filter (\<lambda>e. case e of Spawn c a d e \<Rightarrow> True | _ \<Rightarrow> False) evs)"

text \<open>
  How the processing of one attachment ended: the body ran to its end, the attachment
  had no URL and was skipped, or anything else (an exception, or no results).
\<close>

datatype verdict = Succeeded | SkippedNoUrl | Failed

definition verdictOf :: "host \<Rightarrow> run_world \<Rightarrow> message \<Rightarrow> bool \<Rightarrow> attachment \<Rightarrow> verdict" where
  "verdictOf h w msg hasCallback a =
     (if snd (tryBody h w msg hasCallback a) = Next () then Succeeded
      else if snd (acquire h w a) = Continue then SkippedNoUrl
      else Failed)"

text \<open>The callback call of the \<open>catch\<close> block, when it is reached, returns.\<close>

definition catchReturns :: "host \<Rightarrow> run_world \<Rightarrow> message \<Rightarrow> bool \<Rightarrow> attachment \<Rightarrow> bool" where
  "catchReturns h w msg hasCallback a =
     (snd (tryBody h w msg hasCallback a) = Raise \<longrightarrow>
        cb_ok w (length (filter isCallbackEvent (fst (tryBody h w msg hasCallback a)))))"

section \<open>Sample inputs\<close>

text \<open>
  \<open>path.join\<close> on segments that need no normalisation, and the path of a URL of the
  shape \<open>scheme://host/path\<close> with nothing to normalise or escape.
\<close>

fun joinSlash :: "jsstring list \<Rightarrow> jsstring" where
  "joinSlash [] = js ''.''"
| "joinSlash [p] = p"
| "joinSlash (p # q # ps) = p @ js ''/'' @ joinSlash (q # ps)"

definition simplePathname :: "jsstring \<Rightarrow> jsstring option" where
  "simplePathname u =
     (case indexOf u (js ''://'') of
        None \<Rightarrow> None
      | Some i \<Rightarrow>
          (let rest = dropWhile (\<lambda>c. c \<noteq> 0x2F) (drop (i + 3) u)
           in Some (if rest = [] then js ''/''
                    else takeWhile (\<lambda>c. c \<noteq> 0x3F \<and> c \<noteq> 0x23) rest)))"

definition sampleHost :: host where
  "sampleHost =
     \<lparr>cwd = js ''/bot'',
      env = [(js ''OPENAI_API_KEY'', js ''sk-secret-key''), (js ''GOOGLE_API_KEY'', js ''AIza-secret'')],
      joinPath = joinSlash, urlPathname = simplePathname\<rparr>"

text \<open>
  A world where the download works, the child runs as given, and the callback either
  always returns or always throws.
\<close>

definition sampleWorld :: "child_run \<Rightarrow> bool \<Rightarrow> run_world" where
  "sampleWorld run cbReturns =
     \<lparr>dir_exists = True, mkdir_ok = True, fetched = Fetched, write_ok = True,
      child = run, cb_ok = (\<lambda>k. cbReturns), unlink_ok = True\<rparr>"

definition exitOneWorlds :: "nat \<Rightarrow> run_world" where
  "exitOneWorlds i = sampleWorld (Closed [] (Some 1)) True"

definition throwingWorlds :: "nat \<Rightarrow> run_world" where
  "throwingWorlds i = sampleWorld (Closed [] (Some 1)) False"

definition picUrl :: jsstring where
  "picUrl = js ''https://x/y/pic.JPG''"

definition picAttachment :: attachment where
  "picAttachment =
     \<lparr>att_id = None, att_title = None, att_name = None, att_source = None,
      att_contentType = None, att_url = Some picUrl\<rparr>"

definition bareAttachment :: attachment where
  "bareAttachment =
     \<lparr>att_id = None, att_title = None, att_name = None, att_source = None,
      att_contentType = None, att_url = None\<rparr>"

definition sampleMessage :: message where
  "sampleMessage =
     \<lparr>msg_entityId = Some (js ''u1''), msg_attachments = Some [picAttachment, picAttachment]\<rparr>"

definition picPath :: jsstring where
  "picPath = js ''/bot/temp_images/pic.JPG''"

definition emptyBlockStdout :: jsstring where
  "emptyBlockStdout = js ''log'' @ [NL] @ startMarker @ [NL] @ endMarker @ [NL]"

definition blankAnswerStdout :: jsstring where
  "blankAnswerStdout =
     startMarker @ [NL] @ js ''QUESTION_1:::Is X true?'' @ [NL]
     @ js ''ANSWER_1:::'' @ [NL] @ js ''---'' @ [NL] @ endMarker"

definition borderLine :: jsstring where
  "borderLine = js ''=QUESTION_1:::x''"

definition borderLineStdout :: jsstring where
  "borderLineStdout = startMarker @ [NL] @ borderLine @ [NL] @ endMarker"

definition shiftedBlock :: jsstring where
  "shiftedBlock =
     [NL] @ js ''QUESTION_1:::   '' @ [NL] @ js ''ANSWER_1:::A1:::x'' @ [NL] @ js ''---'' @ [NL]
     @ js ''QUESTION_2::: Q2 '' @ [NL] @ js ''ANSWER_2:::A2'' @ [NL]"

definition shiftedStdout :: jsstring where
  "shiftedStdout = startMarker @ shiftedBlock @ endMarker"





definition spacedLine :: jsstring where
  "spacedLine = 0x20 # replicate 4999 0x61"

definition twoLines :: jsstring where
  "twoLines = js ''abcdefg'' @ [NL] @ js ''hi''"

section \<open>Strings: auxiliary facts\<close>

lemma length_trim_le: "length (trim s) \<le> length s"
proof -
  have "length (trim s) \<le> length (rev (dropWhile isWhiteSpace s))"
    unfolding trim_def length_rev [of "dropWhile isWhiteSpace (rev (dropWhile isWhiteSpace s))"]
    by (rule length_dropWhile_le)
  also have "\<dots> = length (dropWhile isWhiteSpace s)" by simp
  also have "\<dots> \<le> length s" by (rule length_dropWhile_le)
  finally show ?thesis .
qed

lemma isWhiteSpace_NL: "isWhiteSpace NL"
  by (simp add: isWhiteSpace_def NL_def)

lemma length_trim_snoc_ws:
  assumes "isWhiteSpace w"
  shows "length (trim (s @ [w])) \<le> length s"
proof (cases "\<forall>x \<in> set s. isWhiteSpace x")
  case True
  then have "dropWhile isWhiteSpace (s @ [w]) = []" using assms by simp
  then show ?thesis by (simp add: trim_def)
next
  case False
  then have "dropWhile isWhiteSpace (s @ [w]) = dropWhile isWhiteSpace s @ [w]"
    by auto
  then have "trim (s @ [w]) = rev (dropWhile isWhiteSpace (rev (dropWhile isWhiteSpace s)))"
    using assms by (simp add: trim_def)
  then have "trim (s @ [w]) = trim s" by (simp add: trim_def)
  then show ?thesis by (simp add: length_trim_le)
qed

lemma trim_id:
  assumes "s \<noteq> []" "\<not> isWhiteSpace (hd s)" "\<not> isWhiteSpace (last s)"
  shows "trim s = s"
proof -
  have "dropWhile isWhiteSpace s = s" using assms(1,2) by (cases s) simp_all
  moreover have "dropWhile isWhiteSpace (rev s) = rev s"
    using assms(1,3) by (cases "rev s") (simp_all add: last_rev [symmetric] hd_rev)
  ultimately show ?thesis by (simp add: trim_def)
qed

lemma startsWith_prefix: "startsWith s p = prefix p s"
  by (induction s p rule: startsWith.induct) auto

lemma indexOfFrom_shift: "indexOfFrom k s p = map_option (\<lambda>i. i + k) (indexOfFrom 0 s p)"
proof (induction s arbitrary: k)
  case Nil
  show ?case by simp
next
  case (Cons c cs)
  have "indexOfFrom (Suc k) cs p = map_option (\<lambda>i. i + Suc k) (indexOfFrom 0 cs p)"
    by (rule Cons.IH)
  moreover have "indexOfFrom (Suc 0) cs p = map_option (\<lambda>i. i + Suc 0) (indexOfFrom 0 cs p)"
    by (rule Cons.IH)
  ultimately show ?case by (cases "indexOfFrom 0 cs p") simp_all
qed

lemma indexOf_Cons:
  "indexOf (c # cs) p = (if startsWith (c # cs) p then Some 0 else map_option Suc (indexOf cs p))"
  using indexOfFrom_shift [of "Suc 0" cs p]
  by (cases "indexOfFrom 0 cs p") (simp_all add: indexOf_def)

lemma splitOn_none: "p \<noteq> [] \<Longrightarrow> indexOf s p = None \<Longrightarrow> splitOn p cur s = [cur @ s]"
proof (induction s arbitrary: cur)
  case Nil
  then show ?case by simp
next
  case (Cons c cs)
  from Cons.prems have ns: "\<not> startsWith (c # cs) p" and r: "indexOf cs p = None"
    by (auto simp: indexOf_Cons split: if_splits)
  show ?case using ns Cons.IH [OF Cons.prems(1) r, of "cur @ [c]"] by simp
qed

lemma splitOn_some:
  "p \<noteq> [] \<Longrightarrow> indexOf s p = Some i \<Longrightarrow>
   splitOn p cur s = (cur @ take i s) # splitOn p [] (drop (i + length p) s)"
proof (induction s arbitrary: cur i)
  case Nil
  then show ?case by (simp add: indexOf_def)
next
  case (Cons c cs)
  show ?case
  proof (cases "startsWith (c # cs) p")
    case True
    then have "i = 0" using Cons.prems(2) by (simp add: indexOf_Cons)
    then show ?thesis using True Cons.prems(1) by simp
  next
    case False
    then obtain j where j: "indexOf cs p = Some j" "i = Suc j"
      using Cons.prems(2) by (auto simp: indexOf_Cons)
    show ?thesis using False j Cons.IH [OF Cons.prems(1) j(1), of "cur @ [c]"] by simp
  qed
qed

lemma splitOn_no_newline: "NL \<notin> set s \<Longrightarrow> splitOn [NL] cur s = [cur @ s]"
  by (induction s arbitrary: cur) auto


section \<open>ResultExtractor\<close>

lemma fieldSep_nonempty: "fieldSep \<noteq> []"
  by (simp add: fieldSep_def js_def)

lemma fieldOf_between:
  assumes "includes_str line fieldSep"
  shows "fieldOf line = Some (fieldText line)"
proof -
  from assms obtain i where i: "indexOf line fieldSep = Some i"
    by (auto simp: includes_str_def)
  define rest where "rest = drop (i + length fieldSep) line"
  have s1: "split_str line fieldSep = take i line # splitOn fieldSep [] rest"
    using splitOn_some [OF fieldSep_nonempty i, of "[]"] by (simp add: split_str_def rest_def)
  have "at_index (split_str line fieldSep) 1 = Some (betweenSeps line)"
  proof (cases "indexOf rest fieldSep")
    case None
    then show ?thesis
      using s1 splitOn_none [OF fieldSep_nonempty None, of "[]"] i
      by (simp add: at_index_def betweenSeps_def rest_def)
  next
    case (Some j)
    then show ?thesis
      using s1 splitOn_some [OF fieldSep_nonempty Some, of "[]"] i
      by (simp add: at_index_def betweenSeps_def rest_def)
  qed
  then show ?thesis by (simp add: fieldOf_def fieldText_def)
qed

lemma parseLine_spec:
  "parseLine qa line =
     (if questionLine line \<and> fieldText line \<noteq> [] then (fst qa @ [fieldText line], snd qa)
      else if answerLine line \<and> fieldText line \<noteq> [] then (fst qa, snd qa @ [fieldText line])
      else qa)"
  by (auto simp: parseLine_def questionLine_def answerLine_def fieldOf_between)

lemma foldl_parseLine:
  "foldl parseLine qa ls =
     (fst qa @ map fieldText (filter (\<lambda>l. questionLine l \<and> fieldText l \<noteq> []) ls),
      snd qa @ map fieldText (filter (\<lambda>l. answerLine l \<and> fieldText l \<noteq> []) ls))"
proof (induction ls arbitrary: qa)
  case Nil
  show ?case by simp
next
  case (Cons l ls)
  show ?case unfolding foldl_Cons Cons.IH
    by (auto simp: parseLine_spec answerLine_def)
qed

text \<open>
  Claim C10, as amended. For every captured stdout with both markers, the questions are
  the fields of the question lines among the lines that pass the line filter (not
  blank, not \<open>---\<close>, not starting with \<open>=\<close>), in order, and the answers the fields of the
  answer lines among them. The field of a line is the text between the first and the
  second \<open>:::\<close>, trimmed; a line whose field is empty contributes nothing and takes no
  position, so everything after it in its sequence moves up by one.
\<close>

theorem recorded_fields:
  assumes "resultsBlock stdout = Some block"
  shows "parseChronosResults stdout =
           Some (map fieldText (filter (\<lambda>l. questionLine l \<and> fieldText l \<noteq> []) (blockLines block)),
                 map fieldText (filter (\<lambda>l. answerLine l \<and> fieldText l \<noteq> []) (blockLines block)))"
  using assms by (simp add: parseChronosResults_def foldl_parseLine)

text \<open>
  A block whose first question is blank and whose first answer has a second separator:
  the one question left is paired with the first answer.
\<close>

theorem recorded_fields_witness:
  "resultsBlock shiftedStdout = Some shiftedBlock
   \<and> parseChronosResults shiftedStdout = Some ([js ''Q2''], [js ''A1'', js ''A2''])"
proof -
  have h: "resultsBlock shiftedStdout = Some shiftedBlock" by code_simp
  have q: "map fieldText (filter (\<lambda>l. questionLine l \<and> fieldText l \<noteq> []) (blockLines shiftedBlock))
             = [js ''Q2'']"
    by code_simp
  have a: "map fieldText (filter (\<lambda>l. answerLine l \<and> fieldText l \<noteq> []) (blockLines shiftedBlock))
             = [js ''A1'', js ''A2'']"
    by code_simp
  show ?thesis using recorded_fields [OF h] h q a by simp
qed

text \<open>
  The claim as it was written speaks of every line between the markers. A line that
  starts with \<open>=\<close> lies between the markers, carries the question tag and the separator
  and has the field \<open>x\<close>, and nothing is recorded for it.
\<close>

theorem border_line_counterexample:
  "resultsBlock borderLineStdout = Some ([NL] @ borderLine @ [NL])
   \<and> split_str ([NL] @ borderLine @ [NL]) [NL] = [[], borderLine, []]
   \<and> questionLine borderLine \<and> fieldText borderLine = js ''x''
   \<and> parseChronosResults borderLineStdout = Some ([], [])"
  by code_simp

text \<open>
  Claim C2, as amended. When both markers are present and no line between them is a
  question or answer line, the extractor returns the empty result set, which is not
  the "no results" of a missing marker. The orchestrator does with the empty result
  set exactly what it does with a missing block: it logs the error
  \<open>Chronos pipeline returned no results\<close>, calls the callback once with the failure
  notice when there is a callback (and sends nothing when there is none), sends no
  chunk of a report, and goes on to the next attachment, or into the \<open>catch\<close> block
  when that callback call throws.
\<close>

theorem empty_block_is_failure:
  assumes "resultsBlock stdout = Some block"
    and "\<forall>line \<in> set (split_str block [NL]). \<not> questionLine line \<and> \<not> answerLine line"
  shows "parseChronosResults stdout = Some ([], [])
         \<and> parseChronosResults stdout \<noteq> None
         \<and> deliver w hasCallback imagePath (parseChronosResults stdout)
             = deliver w hasCallback imagePath None
         \<and> deliver w hasCallback imagePath (parseChronosResults stdout)
             = (if hasCallback then
                  (if cb_ok w 0
                   then ([Log LError (js ''Chronos pipeline returned no results''),
                          SendNotice failedNotice True], Continue)
                   else ([Log LError (js ''Chronos pipeline returned no results''),
                          SendNotice failedNotice False], Raise))
                else ([Log LError (js ''Chronos pipeline returned no results'')], Continue))"
proof -
  have "filter (\<lambda>l. questionLine l \<and> fieldText l \<noteq> []) (blockLines block) = []"
    using assms(2) by (auto simp: blockLines_def filter_empty_conv)
  moreover have "filter (\<lambda>l. answerLine l \<and> fieldText l \<noteq> []) (blockLines block) = []"
    using assms(2) by (auto simp: blockLines_def filter_empty_conv)
  ultimately have "parseChronosResults stdout = Some ([], [])"
    using assms(1) by (simp add: parseChronosResults_def foldl_parseLine)
  then show ?thesis by (simp add: deliver_def noResults_def)
qed

text \<open>
  A stdout with both markers and nothing between them, met by a callback that returns
  and by no callback at all.
\<close>

theorem empty_block_is_failure_witness:
  "resultsBlock emptyBlockStdout = Some [NL]
   \<and> filter (\<lambda>line. questionLine line \<or> answerLine line) (split_str [NL] [NL]) = []
   \<and> parseChronosResults emptyBlockStdout = Some ([], [])
   \<and> deliver (sampleWorld (Closed [Stdout emptyBlockStdout] (Some 0)) True) True picPath
         (parseChronosResults emptyBlockStdout)
       = ([Log LError (js ''Chronos pipeline returned no results''), SendNotice failedNotice True],
          Continue)
   \<and> deliver (sampleWorld (Closed [Stdout emptyBlockStdout] (Some 0)) True) False picPath
         (parseChronosResults emptyBlockStdout)
       = ([Log LError (js ''Chronos pipeline returned no results'')], Continue)"
proof -
  let ?w = "sampleWorld (Closed [Stdout emptyBlockStdout] (Some 0)) True"
  let ?m = "Log LError (js ''Chronos pipeline returned no results'')"
  have h1: "resultsBlock emptyBlockStdout = Some [NL]" by code_simp
  have h2: "\<forall>line \<in> set (split_str [NL] [NL]). \<not> questionLine line \<and> \<not> answerLine line"
    by code_simp
  have h3: "filter (\<lambda>line. questionLine line \<or> answerLine line) (split_str [NL] [NL]) = []"
    using h2 by (simp add: filter_empty_conv)
  have ok: "cb_ok ?w 0"
    by (simp add: sampleWorld_def)
  note t = empty_block_is_failure [OF h1 h2]
  from t [of ?w True picPath]
  have e: "deliver ?w True picPath (parseChronosResults emptyBlockStdout)
             = (if True then
                  (if cb_ok ?w 0 then ([?m, SendNotice failedNotice True], Continue)
                   else ([?m, SendNotice failedNotice False], Raise))
                else ([?m], Continue))"
    by blast
  have a: "deliver ?w True picPath (parseChronosResults emptyBlockStdout)
             = ([?m, SendNotice failedNotice True], Continue)"
    unfolding e using ok by simp
  from t [of ?w False picPath]
  have f: "deliver ?w False picPath (parseChronosResults emptyBlockStdout)
             = (if False then
                  (if cb_ok ?w 0 then ([?m, SendNotice failedNotice True], Continue)
                   else ([?m, SendNotice failedNotice False], Raise))
                else ([?m], Continue))"
    by blast
  have b: "deliver ?w False picPath (parseChronosResults emptyBlockStdout) = ([?m], Continue)"
    unfolding f by simp
  from t [of ?w True picPath]
  have c: "parseChronosResults emptyBlockStdout = Some ([], [])"
    by blast
  from h1 h3 a b c show ?thesis by blast
qed

text \<open>
  The claim as it was written has the orchestrator treat the empty result set as zero
  results. On a stdout with both markers and nothing between them the orchestrator
  logs the error and sends the failure notice, as it does for a missing block.
\<close>

theorem empty_results_counterexample:
  "parseChronosResults emptyBlockStdout = Some ([], [])
   \<and> deliver (sampleWorld (Closed [Stdout emptyBlockStdout] (Some 0)) True) True picPath
        (parseChronosResults emptyBlockStdout)
     = ([Log LError (js ''Chronos pipeline returned no results''), SendNotice failedNotice True],
        Continue)
   \<and> deliver (sampleWorld (Closed [Stdout emptyBlockStdout] (Some 0)) True) True picPath
        (parseChronosResults emptyBlockStdout)
     = deliver (sampleWorld (Closed [Stdout emptyBlockStdout] (Some 0)) True) True picPath None"
  by code_simp

text \<open>
  Claim C1. The pipeline printed a question and a blank answer, so the extractor has
  one question and no answer. The report still has an entry for the question, and its
  answer reads \<open>undefined\<close>: the formatting loop runs over the questions and reads the
  answers out of range.
\<close>

theorem unmatched_question_reported:
  "parseChronosResults blankAnswerStdout = Some ([js ''Is X true?''], [])
   \<and> splitDiscordMessage (formatReport [js ''Is X true?''] []) 1900
     = [reportHeader @ js ''**Q1:** Is X true?'' @ [NL, NL] @ js ''**A1:** undefined'' @ [NL, NL]
        @ js ''---'' @ [NL, NL]]"
  by code_simp

section \<open>MessageChunker\<close>

lemma chunkInv_flush: "chunkInv ls L st \<Longrightarrow> chunkInv ls L (flush st)"
  by (auto simp: chunkInv_def flush_def chunkOk_def trim_def)

lemma chunkInv_sentenceStep:
  assumes "chunkInv ls L st" "line \<in> set ls" "L < length line" "s \<in> set (sentencesOf line)"
  shows "chunkInv ls L (sentenceStep L st s)"
proof (cases "length (snd st @ s) > L")
  case True
  have "chunkOk ls L (trim s)"
  proof (cases "L < length s")
    case True
    then show ?thesis using assms(2,3,4) by (auto simp: chunkOk_def oversizedSentence_def)
  next
    case False
    then show ?thesis using length_trim_le [of s] by (simp add: chunkOk_def)
  qed
  then show ?thesis using True assms(1) by (auto simp: chunkInv_def sentenceStep_def)
next
  case False
  then have "length (trim (snd st @ s)) \<le> L"
    using length_trim_le [of "snd st @ s"] by simp
  then show ?thesis using False assms(1) by (simp add: chunkInv_def sentenceStep_def chunkOk_def)
qed

lemma chunkInv_sentences:
  assumes "line \<in> set ls" "L < length line"
  shows "set ss \<subseteq> set (sentencesOf line) \<Longrightarrow> chunkInv ls L st \<Longrightarrow>
         chunkInv ls L (foldl (sentenceStep L) st ss)"
proof (induction ss arbitrary: st)
  case Nil
  then show ?case by simp
next
  case (Cons s ss)
  then show ?case using assms by (simp add: chunkInv_sentenceStep)
qed

lemma chunkInv_lineStep:
  assumes "chunkInv ls L st" "line \<in> set ls"
  shows "chunkInv ls L (lineStep L st line)"
proof (cases "length (snd st @ line @ [NL]) > L")
  case over: True
  show ?thesis
  proof (cases "length line > L")
    case True
    then show ?thesis
      using over assms by (simp add: lineStep_def chunkInv_sentences chunkInv_flush)
  next
    case False
    have "length (trim (line @ [NL])) \<le> L"
      using length_trim_snoc_ws [OF isWhiteSpace_NL, of line] False by simp
    moreover have "\<forall>c \<in> set (fst (flush st)). chunkOk ls L c"
      using chunkInv_flush [OF assms(1)] by (simp add: chunkInv_def)
    ultimately show ?thesis using over False
      by (simp add: lineStep_def chunkInv_def chunkOk_def)
  qed
next
  case False
  then have "length (trim (snd st @ line @ [NL])) \<le> L"
    using length_trim_le [of "snd st @ line @ [NL]"] by simp
  then show ?thesis using False assms(1) by (simp add: lineStep_def chunkInv_def chunkOk_def)
qed

lemma chunkInv_lines:
  "set ls' \<subseteq> set ls \<Longrightarrow> chunkInv ls L st \<Longrightarrow> chunkInv ls L (foldl (lineStep L) st ls')"
proof (induction ls' arbitrary: st)
  case Nil
  then show ?case by simp
next
  case (Cons l ls')
  then show ?case by (simp add: chunkInv_lineStep)
qed

text \<open>
  Claim C4. For every text and every limit \<open>L \<ge> 1\<close>, a chunk returned by the chunker
  has at most \<open>L\<close> code units, unless it is a single sentence (or a line that has no
  sentence) of a line of the text, longer than \<open>L\<close> by itself.
\<close>

theorem chunk_length_bound:
  assumes "1 \<le> L" "c \<in> set (splitDiscordMessage text L)"
  shows "length c \<le> L \<or> oversizedSentence (split_str text [NL]) L c"
proof (cases "length text \<le> L")
  case True
  then show ?thesis using assms(2) by (simp add: splitDiscordMessage_def)
next
  case False
  have "chunkInv (split_str text [NL]) L ([], [])"
    by (simp add: chunkInv_def chunkOk_def trim_def)
  then have "chunkInv (split_str text [NL]) L
               (flush (foldl (lineStep L) ([], []) (split_str text [NL])))"
    by (simp add: chunkInv_lines chunkInv_flush)
  then show ?thesis using False assms(2)
    by (simp add: splitDiscordMessage_def chunkInv_def chunkOk_def)
qed

text \<open>
  With the limit 3, the text of the lines \<open>abcdefg\<close> and \<open>hi\<close> gives two chunks: the first
  line has no sentence and is longer than the limit, the second fits.
\<close>

theorem chunk_length_bound_witness:
  "(1::nat) \<le> 3
   \<and> splitDiscordMessage twoLines 3 = [js ''abcdefg'', js ''hi'']
   \<and> oversizedSentence (split_str twoLines [NL]) 3 (js ''abcdefg'')
   \<and> length (js ''hi'') \<le> 3"
proof -
  have h: "(1::nat) \<le> 3" by simp
  have e: "splitDiscordMessage twoLines 3 = [js ''abcdefg'', js ''hi'']"
    by code_simp
  have m1: "js ''abcdefg'' \<in> set (splitDiscordMessage twoLines 3)" using e by simp
  have long: "\<not> length (js ''abcdefg'') \<le> 3" by (simp add: js_def)
  have short: "length (js ''hi'') \<le> 3" by (simp add: js_def)
  from chunk_length_bound [OF h m1] long
  have "oversizedSentence (split_str twoLines [NL]) 3 (js ''abcdefg'')" by blast
  with h e short show ?thesis by blast
qed

lemma matchSentences_none: "\<forall>c \<in> set s. \<not> isTerminator c \<Longrightarrow> matchSentences s = []"
  by (cases s) auto

lemma split_single_line:
  assumes "NL \<notin> set line" "\<forall>c \<in> set line. \<not> isTerminator c" "L < length line"
  shows "splitDiscordMessage line L = [trim line]"
proof -
  have ne: "line \<noteq> []" using assms(3) by auto
  have "split_str line [NL] = [line]"
    using assms(1) by (simp add: split_str_def splitOn_no_newline)
  moreover have "sentencesOf line = [line]"
    using assms(2) by (simp add: sentencesOf_def matchSentences_none)
  ultimately show ?thesis
    using assms(3) ne by (simp add: splitDiscordMessage_def lineStep_def flush_def sentenceStep_def)
qed

text \<open>
  Claim C5, as amended. For a single line of 5000 code units without \<open>.\<close>, \<open>!\<close>, \<open>?\<close> and
  the limit 1900, the chunker returns exactly one chunk, and this chunk is the line
  with the white space at its two ends trimmed: nothing is cut to fit the limit, so
  the chunk is as long as what the trimming leaves (nothing at all for a line of white
  space). When the line neither starts nor ends with white space, the chunk is the
  line itself, all 5000 code units of it.
\<close>

theorem single_long_line:
  assumes "length line = 5000" "NL \<notin> set line" "\<forall>c \<in> set line. \<not> isTerminator c"
  shows "splitDiscordMessage line 1900 = [trim line]
         \<and> (\<not> isWhiteSpace (hd line) \<and> \<not> isWhiteSpace (last line)
              \<longrightarrow> splitDiscordMessage line 1900 = [line]
                  \<and> map length (splitDiscordMessage line 1900) = [5000])"
proof -
  have s: "splitDiscordMessage line 1900 = [trim line]"
    using assms by (simp add: split_single_line)
  have "line \<noteq> []" using assms(1) by auto
  then show ?thesis using s assms(1) by (auto simp: trim_id)
qed

theorem single_long_line_witness:
  "length (replicate 5000 (0x61 :: jschar)) = 5000
   \<and> NL \<notin> set (replicate 5000 (0x61 :: jschar))
   \<and> filter isTerminator (replicate 5000 (0x61 :: jschar)) = []
   \<and> \<not> isWhiteSpace (hd (replicate 5000 (0x61 :: jschar)))
   \<and> \<not> isWhiteSpace (last (replicate 5000 (0x61 :: jschar)))
   \<and> splitDiscordMessage (replicate 5000 0x61) 1900 = [replicate 5000 0x61]"
proof -
  have h1: "length (replicate 5000 (0x61 :: jschar)) = 5000" by simp
  have h2: "NL \<notin> set (replicate 5000 (0x61 :: jschar))" by (simp add: NL_def)
  have h3: "\<forall>c \<in> set (replicate 5000 (0x61 :: jschar)). \<not> isTerminator c"
    by (simp add: isTerminator_def)
  have h4: "\<not> isWhiteSpace (hd (replicate 5000 (0x61 :: jschar)))"
    by (simp add: isWhiteSpace_def)
  have h5: "\<not> isWhiteSpace (last (replicate 5000 (0x61 :: jschar)))"
    by (simp add: isWhiteSpace_def)
  have h6: "filter isTerminator (replicate 5000 (0x61 :: jschar)) = []"
    using h3 by (simp add: filter_empty_conv)
  from single_long_line [OF h1 h2 h3] h4 h5
  have "splitDiscordMessage (replicate 5000 0x61) 1900 = [replicate 5000 0x61]" by blast
  with h1 h2 h6 h4 h5 show ?thesis by blast
qed

text \<open>
  The claim as it was written returns the line verbatim. A line of a space and 4999
  letters \<open>a\<close> is returned without its space.
\<close>

theorem long_line_trimmed_counterexample:
  "length spacedLine = 5000
   \<and> splitDiscordMessage spacedLine 1900 = [replicate 4999 0x61]
   \<and> splitDiscordMessage spacedLine 1900 \<noteq> [spacedLine]"
proof -
  have "splitDiscordMessage spacedLine 1900 = [trim spacedLine]"
    unfolding spacedLine_def
    by (rule split_single_line) (simp_all add: NL_def isTerminator_def)
  moreover have "trim spacedLine = replicate 4999 0x61"
    by (simp add: spacedLine_def trim_def isWhiteSpace_def)
  ultimately show ?thesis by (simp add: spacedLine_def)
qed

section \<open>AttachmentClassifier\<close>

lemma canon_lower:
  fixes c p :: jschar
  assumes "isLowerLetter p"
  shows "(canonicalize c = canonicalize p) = (toLowerAscii c = p)"
  using assms unfolding canonicalize_def toLowerAscii_def isLowerLetter_def
  by (auto; unat_arith)

lemma eqIgnoreCase_lower:
  "\<forall>x \<in> set p. isLowerLetter x \<Longrightarrow> eqIgnoreCase s p = (map toLowerAscii s = p)"
proof (induction s arbitrary: p)
  case Nil
  then show ?case by (auto simp: eqIgnoreCase_def)
next
  case (Cons c cs)
  show ?case
  proof (cases p)
    case Nil
    then show ?thesis by (simp add: eqIgnoreCase_def)
  next
    case (Cons q qs)
    then have "eqIgnoreCase cs qs = (map toLowerAscii cs = qs)" and "isLowerLetter q"
      using Cons.IH [of qs] Cons.prems by simp_all
    then show ?thesis using Cons canon_lower [of q c]
      by (simp add: eqIgnoreCase_def)
  qed
qed

lemma imageExtensions_lower: "e \<in> set imageExtensions \<Longrightarrow> \<forall>x \<in> set e. isLowerLetter x"
  by (auto simp: imageExtensions_def js_def isLowerLetter_def)

lemma lower_dot: "(toLowerAscii c = 0x2E) = (c = 0x2E)"
  unfolding toLowerAscii_def by (auto; unat_arith)

lemma matchImageExt_iff:
  "matchImageExt u =
     (\<exists>pre rest. u = pre @ 0x2E # rest \<and> (\<exists>e \<in> set imageExtensions. eqIgnoreCase rest e))"
proof (induction u)
  case Nil
  show ?case by simp
next
  case (Cons c cs)
  show ?case (is "?l = ?r")
  proof
    assume ?l
    then consider "c = 0x2E" "\<exists>e \<in> set imageExtensions. eqIgnoreCase cs e" | "matchImageExt cs"
      by (auto simp: list_ex_iff)
    then show ?r
    proof cases
      case 1
      then have "c # cs = [] @ 0x2E # cs" by simp
      then show ?thesis using 1(2) by blast
    next
      case 2
      then obtain pre rest where "cs = pre @ 0x2E # rest"
        and ex: "\<exists>e \<in> set imageExtensions. eqIgnoreCase rest e"
        using Cons.IH by blast
      then have "c # cs = (c # pre) @ 0x2E # rest" by simp
      then show ?thesis using ex by blast
    qed
  next
    assume ?r
    then obtain pre rest where pr: "c # cs = pre @ 0x2E # rest"
      and ex: "\<exists>e \<in> set imageExtensions. eqIgnoreCase rest e" by blast
    show ?l
    proof (cases pre)
      case Nil
      then show ?thesis using pr ex by (auto simp: list_ex_iff)
    next
      case (Cons d ds)
      then have "cs = ds @ 0x2E # rest" using pr by simp
      then have "matchImageExt cs" using Cons.IH ex by blast
      then show ?thesis by simp
    qed
  qed
qed

lemma matchImageExt_suffix: "matchImageExt u = endsWithImageExtension u"
proof -
  have "(\<exists>pre rest. u = pre @ 0x2E # rest \<and> eqIgnoreCase rest e)
        = suffix (0x2E # e) (map toLowerAscii u)" if e: "e \<in> set imageExtensions" for e
  proof
    assume "\<exists>pre rest. u = pre @ 0x2E # rest \<and> eqIgnoreCase rest e"
    then obtain pre rest where u: "u = pre @ 0x2E # rest" and r: "eqIgnoreCase rest e" by blast
    have "map toLowerAscii rest = e"
      using r eqIgnoreCase_lower [OF imageExtensions_lower [OF e]] by simp
    then have "map toLowerAscii u = map toLowerAscii pre @ 0x2E # e"
      using u lower_dot [of "0x2E"] by simp
    then show "suffix (0x2E # e) (map toLowerAscii u)" by (simp add: suffix_def)
  next
    assume "suffix (0x2E # e) (map toLowerAscii u)"
    then obtain zs where "map toLowerAscii u = zs @ 0x2E # e" by (auto simp: suffix_def)
    then obtain pre tl where u: "u = pre @ tl" and t: "map toLowerAscii tl = 0x2E # e"
      by (auto simp: map_eq_append_conv)
    then obtain d rest where tl: "tl = d # rest" and d: "toLowerAscii d = 0x2E"
      and rest: "map toLowerAscii rest = e" by (cases tl) auto
    have "eqIgnoreCase rest e"
      using rest eqIgnoreCase_lower [OF imageExtensions_lower [OF e]] by simp
    moreover have "d = 0x2E" using d lower_dot by simp
    ultimately show "\<exists>pre rest. u = pre @ 0x2E # rest \<and> eqIgnoreCase rest e"
      using u tl by blast
  qed
  then show ?thesis
    unfolding matchImageExt_iff endsWithImageExtension_def list_ex_iff by blast
qed

text \<open>
  Claim C8. The predicate of the code is true exactly when the source tag is \<open>Image\<close>,
  or the content type starts with \<open>image/\<close>, or the URL ends, whatever the case of its
  letters, with a dot and one of \<open>jpg, jpeg, png, gif, webp, bmp\<close>. It is a function of
  the three fields alone, defined on every attachment, and an attachment with none of
  the three fields is not an image.
\<close>

theorem isImage_spec:
  "isImage a = imageLike a
   \<and> (att_source a = None \<and> att_contentType a = None \<and> att_url a = None \<longrightarrow> \<not> isImage a)"
  by (simp add: isImage_def imageLike_def startsWith_prefix matchImageExt_suffix
      split: option.splits)

theorem isImage_spec_witness:
  "att_source bareAttachment = None \<and> att_contentType bareAttachment = None
   \<and> att_url bareAttachment = None \<and> \<not> isImage bareAttachment
   \<and> isImage bareAttachment = imageLike bareAttachment"
proof -
  have f: "att_source bareAttachment = None" "att_contentType bareAttachment = None"
    "att_url bareAttachment = None"
    by (simp_all add: bareAttachment_def)
  from isImage_spec [of bareAttachment] f show ?thesis by blast
qed

section \<open>ImageAcquirer\<close>

text \<open>
  Claim C9. For an attachment with URL \<open>https://x/y/pic.JPG\<close>, no title and no name,
  the local file name is \<open>pic.JPG\<close>, given that the platform's URL parser reports the
  path \<open>/y/pic.JPG\<close> for this URL: the last segment of the path is taken, the extension
  is recognised in upper case so nothing is appended (with or without a content type),
  and the sanitizer changes nothing.
\<close>

theorem pic_file_name:
  assumes "att_title a = None" "att_name a = None"
    and "pathname picUrl = Some (js ''/y/pic.JPG'')"
  shows "deriveFileName pathname a picUrl = Some (js ''pic.JPG'')"
proof -
  have seg: "last (split_str (js ''/y/pic.JPG'') (js ''/'')) = js ''pic.JPG''"
    by code_simp
  have ne: "js ''pic.JPG'' \<noteq> []" by (simp add: js_def)
  have b: "baseName pathname a picUrl = Some (js ''pic.JPG'')"
    using assms seg ne by (simp add: baseName_def truthy_def orElse_def)
  have m: "matchImageExt (js ''pic.JPG'')" by code_simp
  have s: "sanitize (js ''pic.JPG'') = js ''pic.JPG''" by code_simp
  show ?thesis using b m s by (simp add: deriveFileName_def)
qed

theorem pic_file_name_witness:
  "att_title picAttachment = None \<and> att_name picAttachment = None
   \<and> att_contentType picAttachment = None \<and> att_url picAttachment = Some picUrl
   \<and> simplePathname picUrl = Some (js ''/y/pic.JPG'')
   \<and> deriveFileName simplePathname picAttachment picUrl = Some (js ''pic.JPG'')"
proof -
  have f: "att_title picAttachment = None" "att_name picAttachment = None"
    "att_contentType picAttachment = None" "att_url picAttachment = Some picUrl"
    by (simp_all add: picAttachment_def)
  have h: "simplePathname picUrl = Some (js ''/y/pic.JPG'')" by code_simp
  from pic_file_name [of picAttachment simplePathname, OF f(1) f(2) h] f h show ?thesis by blast
qed

section \<open>PipelineInvoker\<close>


lemma logEvents_append [simp]: "logEvents (xs @ ys) = logEvents xs @ logEvents ys"
  by (simp add: logEvents_def)

lemma logEvents_Nil [simp]: "logEvents [] = []"
  by (simp add: logEvents_def)

lemma logEvents_Cons [simp]:
  "logEvents (e # es) = (case e of Log l t \<Rightarrow> [e] | _ \<Rightarrow> []) @ logEvents es"
  by (cases e) (simp_all add: logEvents_def)

lemma logEvents_pieces [simp]: "logEvents (map pieceLog ps) = map pieceLog ps"
  by (induction ps) (simp_all add: pieceLog_def split: piece.splits)

lemma logEvents_parseLog [simp]: "logEvents (parseLog s) = parseLog s"
  by (simp add: parseLog_def split: option.splits)

lemma logEvents_closeEvents [simp]: "logEvents (closeEvents ps code) = closeEvents ps code"
  by (simp add: closeEvents_def)

lemma logEvents_childEvents [simp]: "logEvents (childEvents run) = childEvents run"
  by (cases run) (simp_all add: childEvents_def)

lemma spawnedEnvs_append [simp]: "spawnedEnvs (xs @ ys) = spawnedEnvs xs @ spawnedEnvs ys"
  by (simp add: spawnedEnvs_def)

lemma spawnedEnvs_Nil [simp]: "spawnedEnvs [] = []"
  by (simp add: spawnedEnvs_def)

lemma spawnedEnvs_Cons [simp]:
  "spawnedEnvs (e # es) = (case e of Spawn c a d e \<Rightarrow> [e] | _ \<Rightarrow> []) @ spawnedEnvs es"
  by (simp add: spawnedEnvs_def)

lemma spawnedEnvs_pieces [simp]: "spawnedEnvs (map pieceLog ps) = []"
  by (induction ps) (simp_all add: pieceLog_def split: piece.splits)

lemma spawnedEnvs_parseLog [simp]: "spawnedEnvs (parseLog s) = []"
  by (simp add: parseLog_def split: option.splits)

lemma spawnedEnvs_childEvents [simp]: "spawnedEnvs (childEvents run) = []"
  by (cases run) (simp_all add: childEvents_def closeEvents_def)







section \<open>IngestionOrchestrator\<close>

text \<open>
  Claim C6. The download worked and the pipeline ended with exit code 1: the file was
  written, the iteration ended through the no-results branch, and no deletion of the
  file was attempted. The cleanup stands at the end of the loop body only, behind the
  \<open>continue\<close> of the no-results branch and outside the \<open>catch\<close> block.
\<close>

theorem cleanup_skipped_on_failed_run:
  "snd (tryBody sampleHost (exitOneWorlds 0) sampleMessage True picAttachment) = Continue
   \<and> WriteFile picPath
       \<in> set (fst (processAttachment sampleHost (exitOneWorlds 0) sampleMessage True picAttachment))
   \<and> unlinkEvents (fst (processAttachment sampleHost (exitOneWorlds 0) sampleMessage True picAttachment))
       = []"
  by code_simp

text \<open>
  Claim C7. A message with two image attachments, a pipeline that ends with exit code
  1, and a callback that throws. In the first iteration the notice of the no-results
  branch throws into the \<open>catch\<close> block, the callback call of the \<open>catch\<close> block throws
  again, and nothing catches that: the exception leaves the handler, the loop stops,
  and the second attachment is never processed (the pipeline is started once).
\<close>

theorem throwing_callback_leaves_handler:
  "snd (messageReceived sampleHost throwingWorlds sampleMessage True) = False
   \<and> spawnCount (fst (messageReceived sampleHost throwingWorlds sampleMessage True)) = 1"
  by code_simp

subsection \<open>When the callback of the catch block returns\<close>

lemma deliveredNotices_append [simp]:
  "deliveredNotices (xs @ ys) = deliveredNotices xs + deliveredNotices ys"
  by (simp add: deliveredNotices_def)

lemma deliveredNotices_Nil [simp]: "deliveredNotices [] = 0"
  by (simp add: deliveredNotices_def)

lemma deliveredNotices_Cons [simp]:
  "deliveredNotices (e # es) =
     (case e of SendNotice t r \<Rightarrow> (if r then 1 else 0) | _ \<Rightarrow> 0) + deliveredNotices es"
  by (cases e) (simp_all add: deliveredNotices_def)

lemma deliveredNotices_pieces [simp]: "deliveredNotices (map pieceLog ps) = 0"
  by (induction ps) (simp_all add: pieceLog_def split: piece.splits)

lemma deliveredNotices_parseLog [simp]: "deliveredNotices (parseLog s) = 0"
  by (simp add: parseLog_def split: option.splits)

lemma deliveredNotices_sendAll [simp]: "deliveredNotices (fst (sendAll ok k cs)) = 0"
  by (induction cs arbitrary: k) simp_all

lemma deliveredNotices_cleanup [simp]: "deliveredNotices (cleanup w p) = 0"
  by (simp add: cleanup_def)

lemma deliveredNotices_childEvents [simp]: "deliveredNotices (childEvents run) = 0"
  by (cases run) (simp_all add: childEvents_def closeEvents_def)

lemma deliveredNotices_pipeline [simp]:
  "deliveredNotices (fst (runChronosPipeline h p u run)) = 0"
  by (simp add: runChronosPipeline_def startEvents_def Let_def)

lemma deliveredNotices_acquire [simp]: "deliveredNotices (fst (acquire h w a)) = 0"
  by (simp add: acquire_def Let_def split: option.splits)

lemma noResults_notices:
  "deliveredNotices (fst (noResults w cb)) = (if cb \<and> snd (noResults w cb) = Continue then 1 else 0)"
  by (simp add: noResults_def)

lemma deliver_notices:
  "deliveredNotices (fst (deliver w cb p r)) = (if cb \<and> snd (deliver w cb p r) = Continue then 1 else 0)"
  by (cases r) (simp_all add: deliver_def Let_def noResults_notices)

lemma tryBody_notices:
  "deliveredNotices (fst (tryBody h w msg cb a))
     = (if cb \<and> snd (tryBody h w msg cb a) = Continue \<and> snd (acquire h w a) \<noteq> Continue
        then 1 else 0)"
proof (cases "acquire h w a")
  case (Pair evs out)
  have n: "deliveredNotices evs = 0" using deliveredNotices_acquire [of h w a] Pair by simp
  show ?thesis
  proof (cases out)
    case (Next p)
    then show ?thesis using Pair n by (simp add: tryBody_def Let_def deliver_notices)
  next
    case Continue
    then show ?thesis using Pair n by (simp add: tryBody_def)
  next
    case Raise
    then show ?thesis using Pair n by (simp add: tryBody_def)
  qed
qed

lemma acquire_Continue_tryBody:
  "snd (acquire h w a) = Continue \<Longrightarrow> snd (tryBody h w msg cb a) = Continue"
  by (cases "acquire h w a") (simp add: tryBody_def)

text \<open>
  An iteration without a callback, or whose callback call in the \<open>catch\<close> block
  returns, ends inside the loop; with a callback it delivers one failure notice when it
  failed and none otherwise.
\<close>

lemma iteration_notices:
  assumes "cb \<longrightarrow> catchReturns h w msg cb a"
  shows "snd (processAttachment h w msg cb a)
         \<and> deliveredNotices (fst (processAttachment h w msg cb a))
            = (if cb \<and> verdictOf h w msg cb a = Failed then 1 else 0)"
proof (cases cb)
  case False
  then show ?thesis
    by (simp add: processAttachment_def Let_def tryBody_notices)
next
  case cb: True
  show ?thesis
  proof (cases "snd (tryBody h w msg True a)")
    case (Next u)
    then show ?thesis unfolding cb
      by (simp add: processAttachment_def Let_def verdictOf_def tryBody_notices)
  next
    case Continue
    then show ?thesis unfolding cb
      by (simp add: processAttachment_def Let_def verdictOf_def tryBody_notices)
  next
    case Raise
    then have "snd (acquire h w a) \<noteq> Continue"
      using acquire_Continue_tryBody [of h w a msg True] by auto
    then show ?thesis using Raise assms unfolding cb
      by (simp add: processAttachment_def Let_def verdictOf_def tryBody_notices catchReturns_def)
  qed
qed

lemma loop_completes:
  assumes "cb \<longrightarrow> (\<forall>i < length atts. catchReturns h (ws (n + i)) msg cb (atts ! i))"
  shows "snd (processAll h ws msg cb n atts)
         \<and> fst (processAll h ws msg cb n atts)
            = concat (map (\<lambda>i. fst (processAttachment h (ws (n + i)) msg cb (atts ! i)))
                        [0 ..< length atts])"
  using assms
proof (induction atts arbitrary: n)
  case Nil
  show ?case by simp
next
  case (Cons a as)
  have here: "cb \<longrightarrow> catchReturns h (ws n) msg cb a" using Cons.prems by auto
  have rest: "cb \<longrightarrow> (\<forall>i < length as. catchReturns h (ws (Suc n + i)) msg cb (as ! i))"
    using Cons.prems by auto
  have ih: "snd (processAll h ws msg cb (Suc n) as)
         \<and> fst (processAll h ws msg cb (Suc n) as)
            = concat (map (\<lambda>i. fst (processAttachment h (ws (Suc n + i)) msg cb (as ! i)))
                        [0 ..< length as])"
    by (rule Cons.IH [OF rest])
  have sh: "[0 ..< length (a # as)] = 0 # map Suc [0 ..< length as]"
    by (simp add: upt_conv_Cons map_Suc_upt del: upt_Suc)
  show ?case
    using iteration_notices [OF here] ih unfolding sh
    by (simp add: Let_def comp_def)
qed

end
